theory Spec2Isabelle
  imports Main "HOL-Library.Word"
begin

section \<open>Python values\<close>

text \<open>
  The script \<^verbatim>\<open>server/download_csv.py\<close> is modelled on a POSIX host
  (\<^verbatim>\<open>os.path\<close> is \<^verbatim>\<open>posixpath\<close>, \<^verbatim>\<open>os.linesep\<close> is a line feed, so a
  text-mode file writes every character as it is given).

  A Python \<^verbatim>\<open>str\<close> is a sequence of Unicode code points, a \<^verbatim>\<open>bytes\<close> object a
  sequence of octets.
\<close>

type_synonym byte = "8 word"
type_synonym pystr = "nat list"

definition ascii :: "string \<Rightarrow> pystr" where
  "ascii s = map of_char s"

text \<open>The separator \<^verbatim>\<open>'/'\<close> of \<^verbatim>\<open>posixpath\<close>.\<close>

definition sep :: nat where
  "sep = 47"

section \<open>The functions of posixpath the script calls\<close>

text \<open>
  \<^verbatim>\<open>
  def isabs(s):
      return s.startswith(sep)
  \<close>
\<close>

definition isabs :: "pystr \<Rightarrow> bool" where
  "isabs s = (case s of [] \<Rightarrow> False | c # _ \<Rightarrow> c = sep)"

text \<open>
  \<^verbatim>\<open>
  def join(a, *p):
      path = a
      for b in p:
          if b.startswith(sep):
              path = b
          elif not path or path.endswith(sep):
              path += b
          else:
              path += sep + b
      return path
  \<close>
  The script calls it with one component after \<^verbatim>\<open>a\<close>.
\<close>

definition join :: "pystr \<Rightarrow> pystr \<Rightarrow> pystr" where
  "join a b =
     (if isabs b then b
      else if a = [] \<or> last a = sep then a @ b
      else a @ [sep] @ b)"

text \<open>
  \<^verbatim>\<open>
  def dirname(p):
      i = p.rfind(sep) + 1
      head = p[:i]
      if head and head != sep*len(head):
          head = head.rstrip(sep)
      return head
  \<close>
\<close>

definition rstrip_sep :: "pystr \<Rightarrow> pystr" where
  "rstrip_sep s = rev (dropWhile (\<lambda>c. c = sep) (rev s))"

definition dirname :: "pystr \<Rightarrow> pystr" where
  "dirname p =
     (let head = rev (dropWhile (\<lambda>c. c \<noteq> sep) (rev p))
      in if head \<noteq> [] \<and> head \<noteq> replicate (length head) sep
         then rstrip_sep head else head)"

text \<open>
  \<^verbatim>\<open>
  def normpath(path):
      if path == empty:
          return dot
      initial_slashes = path.startswith(sep)
      if (initial_slashes and
          path.startswith(sep*2) and not path.startswith(sep*3)):
          initial_slashes = 2
      comps = path.split(sep)
      new_comps = []
      for comp in comps:
          if comp in (empty, dot):
              continue
          if (comp != dotdot or (not initial_slashes and not new_comps) or
               (new_comps and new_comps[-1] == dotdot)):
              new_comps.append(comp)
          elif new_comps:
              new_comps.pop()
      comps = new_comps
      path = sep.join(comps)
      if initial_slashes:
          path = sep*initial_slashes + path
      return path or dot
  \<close>
\<close>

fun split_sep :: "pystr \<Rightarrow> pystr list" where
  "split_sep [] = [[]]"
| "split_sep (c # cs) =
     (if c = sep then [] # split_sep cs
      else (case split_sep cs of [] \<Rightarrow> [[c]] | x # xs \<Rightarrow> (c # x) # xs))"

fun sep_join :: "pystr list \<Rightarrow> pystr" where
  "sep_join [] = []"
| "sep_join [x] = x"
| "sep_join (x # y # zs) = x @ [sep] @ sep_join (y # zs)"

definition dot :: pystr where
  "dot = ascii ''.''"

definition dotdot :: pystr where
  "dotdot = ascii ''..''"

definition initial_slashes :: "pystr \<Rightarrow> nat" where
  "initial_slashes path =
     (if isabs path then
        (if take 2 path = [sep, sep] \<and> take 3 path \<noteq> [sep, sep, sep] then 2 else 1)
      else 0)"

fun norm_comps :: "nat \<Rightarrow> pystr list \<Rightarrow> pystr list \<Rightarrow> pystr list" where
  "norm_comps i [] new_comps = new_comps"
| "norm_comps i (cmp # comps) new_comps =
     (if cmp = [] \<or> cmp = dot then norm_comps i comps new_comps
      else if cmp \<noteq> dotdot \<or> (i = 0 \<and> new_comps = [])
              \<or> (new_comps \<noteq> [] \<and> last new_comps = dotdot)
        then norm_comps i comps (new_comps @ [cmp])
      else if new_comps \<noteq> [] then norm_comps i comps (butlast new_comps)
      else norm_comps i comps new_comps)"

definition normpath :: "pystr \<Rightarrow> pystr" where
  "normpath path =
     (if path = [] then dot
      else
        let i = initial_slashes path;
            p = replicate i sep @ sep_join (norm_comps i (split_sep path) [])
        in if p = [] then dot else p)"

text \<open>
  \<^verbatim>\<open>
  def abspath(path):
      if not isabs(path):
          cwd = os.getcwd()
          path = join(cwd, path)
      return normpath(path)
  \<close>
  The working directory is an argument of the model.
\<close>

definition abspath :: "pystr \<Rightarrow> pystr \<Rightarrow> pystr" where
  "abspath cwd path = normpath (if isabs path then path else join cwd path)"

section \<open>Text files: the UTF-8 encoder\<close>

text \<open>
  \<^verbatim>\<open>open(csv_path, 'w', encoding='utf-8')\<close> gives a text file: \<^verbatim>\<open>f.write(s)\<close> encodes the
  \<^verbatim>\<open>str\<close> as UTF-8 and \<^verbatim>\<open>s.encode('utf-8')\<close> is the same encoder. It has the default
  error handler \<^verbatim>\<open>strict\<close>: a surrogate code point (U+D800 to U+DFFF) raises
  \<^verbatim>\<open>UnicodeEncodeError\<close>, which is \<open>None\<close> here. A \<^verbatim>\<open>str\<close> holds no code
  point above U+10FFFF; the model refuses such a value too.
\<close>

definition byte_of :: "nat \<Rightarrow> byte" where
  "byte_of n = of_nat n"

definition utf8_encode_cp :: "nat \<Rightarrow> byte list option" where
  "utf8_encode_cp c =
     (if c < 0x80 then Some [byte_of c]
      else if c < 0x800 then
        Some [byte_of (0xC0 + c div 64), byte_of (0x80 + c mod 64)]
      else if 0xD800 \<le> c \<and> c \<le> 0xDFFF then None
      else if c < 0x10000 then
        Some [byte_of (0xE0 + c div 4096), byte_of (0x80 + c div 64 mod 64),
              byte_of (0x80 + c mod 64)]
      else if c < 0x110000 then
        Some [byte_of (0xF0 + c div 262144), byte_of (0x80 + c div 4096 mod 64),
              byte_of (0x80 + c div 64 mod 64), byte_of (0x80 + c mod 64)]
      else None)"

fun utf8_encode :: "pystr \<Rightarrow> byte list option" where
  "utf8_encode [] = Some []"
| "utf8_encode (c # cs) =
     (case utf8_encode_cp c of
        None \<Rightarrow> None
      | Some bs \<Rightarrow>
          (case utf8_encode cs of None \<Rightarrow> None | Some rest \<Rightarrow> Some (bs @ rest)))"

text \<open>
  Well-formed UTF-8 (the Unicode Standard, table 3-7): what a file must be for a reader to
  decode it as UTF-8 text.
\<close>

definition cont :: "byte \<Rightarrow> bool" where
  "cont b = (0x80 \<le> unat b \<and> unat b \<le> 0xBF)"

definition second_ok :: "nat \<Rightarrow> byte \<Rightarrow> bool" where
  "second_ok lead b =
     (if lead = 0xE0 then 0xA0 \<le> unat b \<and> unat b \<le> 0xBF
      else if lead = 0xED then 0x80 \<le> unat b \<and> unat b \<le> 0x9F
      else if lead = 0xF0 then 0x90 \<le> unat b \<and> unat b \<le> 0xBF
      else if lead = 0xF4 then 0x80 \<le> unat b \<and> unat b \<le> 0x8F
      else cont b)"

fun utf8_valid :: "byte list \<Rightarrow> bool" where
  "utf8_valid [] = True"
| "utf8_valid (b # bs) =
     (if unat b < 0x80 then utf8_valid bs
      else if 0xC2 \<le> unat b \<and> unat b \<le> 0xDF then
        (case bs of b1 # r \<Rightarrow> cont b1 \<and> utf8_valid r | _ \<Rightarrow> False)
      else if 0xE0 \<le> unat b \<and> unat b \<le> 0xEF then
        (case bs of
           b1 # b2 # r \<Rightarrow> second_ok (unat b) b1 \<and> cont b2 \<and> utf8_valid r
         | _ \<Rightarrow> False)
      else if 0xF0 \<le> unat b \<and> unat b \<le> 0xF4 then
        (case bs of
           b1 # b2 # b3 # r \<Rightarrow>
             second_ok (unat b) b1 \<and> cont b2 \<and> cont b3 \<and> utf8_valid r
         | _ \<Rightarrow> False)
      else False)"

section \<open>Rendering numbers\<close>

text \<open>\<^verbatim>\<open>str(n)\<close> of a natural number: its decimal digits.\<close>

function show_nat :: "nat \<Rightarrow> pystr" where
  "show_nat n = (if n < 10 then [48 + n] else show_nat (n div 10) @ [48 + n mod 10])"
  by pat_completeness auto
termination
  by (relation "measure id") auto

declare show_nat.simps [simp del]

text \<open>
  \<^verbatim>\<open>
  file_size_mb = total_size / (1024 * 1024)
  f"{file_size_mb:.2f}"
  \<close>
  The division is Python's true division of two integers, a float. A quotient by
  \<open>2 ^ 20\<close> is exact as long as \<^verbatim>\<open>total_size\<close> is below \<open>2 ^ 53\<close>, and the format
  \<^verbatim>\<open>.2f\<close> prints the decimal with two fractional digits nearest to the float it is given,
  a tie going to the even last digit. So below \<open>2 ^ 53\<close> bytes the text is that rounding
  of the exact quotient, computed here on integers: \<open>hundredths\<close> is the printed
  number times 100.
\<close>

definition hundredths :: "nat \<Rightarrow> nat" where
  "hundredths total_size =
     (let n = total_size * 100; q = n div 1048576; r = n mod 1048576
      in if r > 524288 \<or> (r = 524288 \<and> odd q) then q + 1 else q)"

definition format_2f :: "nat \<Rightarrow> pystr" where
  "format_2f total_size =
     (let h = hundredths total_size
      in show_nat (h div 100) @ ascii ''.'' @ [48 + h mod 100 div 10, 48 + h mod 10])"

section \<open>The HTTP response and the exceptions\<close>

text \<open>
  What the script reads of the \<^verbatim>\<open>requests.Response\<close> that
  \<^verbatim>\<open>requests.get(..., stream=True)\<close> returns. With \<^verbatim>\<open>stream=True\<close> the body has not been
  read when \<^verbatim>\<open>get\<close> returns: \<open>raw_chunks\<close> are the pieces (of at most 8192 octets) the
  connection delivers afterwards, in order, and \<open>stream_error\<close> tells whether the
  connection then fails instead of ending (requests raises one of its own exceptions
  there, \<^verbatim>\<open>ChunkedEncodingError\<close> or \<^verbatim>\<open>ConnectionError\<close>). \<open>encoding\<close> is the attribute
  \<^verbatim>\<open>r.encoding\<close>: the charset of the Content-Type header, \<^verbatim>\<open>ISO-8859-1\<close> for a text type
  that names none, \<^verbatim>\<open>None\<close> when the header gives no answer. \<open>body_text\<close> is the value
  of the property \<^verbatim>\<open>r.text\<close> once the whole body could be read.
\<close>

datatype request_error = HTTPError | ConnectionError | ChunkedEncodingError | OtherRequestError

datatype other_error = OSError | TypeError | LookupError | UnicodeEncodeError | OtherError

record response =
  status_code :: nat
  encoding :: "pystr option"
  raw_chunks :: "byte list list"
  stream_error :: "request_error option"
  body_text :: pystr

text \<open>
  The exceptions, by the two classes the script's handlers tell apart:
  \<^verbatim>\<open>requests.exceptions.RequestException\<close> (with its subclasses, and the attribute
  \<^verbatim>\<open>e.response\<close>, which may be \<^verbatim>\<open>None\<close>) and every other subclass of \<^verbatim>\<open>Exception\<close>.
\<close>

datatype exn =
    RequestException request_error "response option"
  | Exception other_error

text \<open>
  \<^verbatim>\<open>
  def raise_for_status(self):
      http_error_msg = ""
      if 400 <= self.status_code < 500:
          http_error_msg = f"{self.status_code} Client Error: ..."
      elif 500 <= self.status_code < 600:
          http_error_msg = f"{self.status_code} Server Error: ..."
      if http_error_msg:
          raise HTTPError(http_error_msg, response=self)
  \<close>
  \<open>None\<close> when it returns, the exception when it raises.
\<close>

definition raise_for_status :: "response \<Rightarrow> exn option" where
  "raise_for_status r =
     (if 400 \<le> status_code r \<and> status_code r < 500 then
        Some (RequestException HTTPError (Some r))
      else if 500 \<le> status_code r \<and> status_code r < 600 then
        Some (RequestException HTTPError (Some r))
      else None)"

text \<open>
  The property \<^verbatim>\<open>r.text\<close> reads the body that is still on the connection
  (\<^verbatim>\<open>self.content\<close> joins \<^verbatim>\<open>self.iter_content(...)\<close>), so it raises when the stream does;
  decoding itself replaces what it cannot decode and does not raise.
\<close>

definition response_text :: "response \<Rightarrow> exn + pystr" where
  "response_text r =
     (case stream_error r of
        Some k \<Rightarrow> Inl (RequestException k None)
      | None \<Rightarrow> Inr (body_text r))"

section \<open>Streaming the body: iter\_content\<close>

text \<open>
  An incremental decoder of the \<^verbatim>\<open>codecs\<close> module, made with \<^verbatim>\<open>errors="replace"\<close>: a
  state and the method \<^verbatim>\<open>decode(input, final)\<close>, which returns the text decoded so far
  and moves to the next state.
\<close>

record 's decoder =
  dec_init :: 's
  dec_decode :: "'s \<Rightarrow> byte list \<Rightarrow> bool \<Rightarrow> pystr \<times> 's"

text \<open>The decoder of \<^verbatim>\<open>ISO-8859-1\<close>: every octet is the code point of the same number.\<close>

definition latin_1 :: "unit decoder" where
  "latin_1 = \<lparr>dec_init = (), dec_decode = (\<lambda>s input final. (map unat input, ()))\<rparr>"

text \<open>
  \<^verbatim>\<open>
  def stream_decode_response_unicode(iterator, r):
      if r.encoding is None:
          yield from iterator
          return
      decoder = codecs.getincrementaldecoder(r.encoding)(errors="replace")
      for chunk in iterator:
          rv = decoder.decode(chunk)
          if rv:
              yield rv
      rv = decoder.decode(b"", final=True)
      if rv:
          yield rv
  \<close>
  \<open>decode_stream\<close> is the \<^verbatim>\<open>for\<close> loop: the texts it yields and the decoder's state after
  the last piece.
\<close>

fun decode_stream :: "'s decoder \<Rightarrow> 's \<Rightarrow> byte list list \<Rightarrow> pystr list \<times> 's" where
  "decode_stream d s [] = ([], s)"
| "decode_stream d s (chunk # chunks) =
     (case dec_decode d s chunk False of
        (rv, s') \<Rightarrow>
          (case decode_stream d s' chunks of
             (rest, s'') \<Rightarrow> ((if rv \<noteq> [] then [rv] else []) @ rest, s'')))"

datatype chunk = StrChunk pystr | BytesChunk "byte list"

text \<open>
  \<^verbatim>\<open>response.iter_content(chunk_size=8192, decode_unicode=True)\<close> as the loop of the script
  sees it: the chunks it yields, in order, and how the iteration ends after them
  (\<open>None\<close>: exhausted; an exception: raised by the next step). \<open>codecs\<close> is
  \<^verbatim>\<open>codecs.getincrementaldecoder\<close>, \<open>None\<close> for a name it does not know
  (\<^verbatim>\<open>LookupError\<close>, raised by the first step, before any piece is read).
\<close>

definition iter_content ::
  "(pystr \<Rightarrow> 's decoder option) \<Rightarrow> response \<Rightarrow> chunk list \<times> exn option" where
  "iter_content codecs r =
     (let fin = map_option (\<lambda>k. RequestException k None) (stream_error r)
      in case encoding r of
           None \<Rightarrow> (map BytesChunk (raw_chunks r), fin)
         | Some name \<Rightarrow>
             (case codecs name of
                None \<Rightarrow> ([], Some (Exception LookupError))
              | Some d \<Rightarrow>
                  (case decode_stream d (dec_init d) (raw_chunks r) of
                     (outs, s) \<Rightarrow>
                       (if fin \<noteq> None then (map StrChunk outs, fin)
                        else
                          let rv = fst (dec_decode d s [] True)
                          in (map StrChunk (outs @ (if rv \<noteq> [] then [rv] else [])), None)))))"

section \<open>The script\<close>

text \<open>
  Everything a run of the script depends on: \<^verbatim>\<open>__file__\<close>, the working directory, what
  \<^verbatim>\<open>requests.get\<close> does (it raises, or returns a response), the codecs Python knows,
  whether \<^verbatim>\<open>open(path, 'w')\<close> raises \<^verbatim>\<open>OSError\<close> for a path, and the files on disk.
\<close>

record 's env =
  script_file :: pystr
  getcwd :: pystr
  http_get :: "exn + response"
  getincrementaldecoder :: "pystr \<Rightarrow> 's decoder option"
  open_fails :: "pystr \<Rightarrow> bool"
  disk :: "pystr \<Rightarrow> byte list option"

text \<open>
  The lines the script prints, each \<^verbatim>\<open>print\<close> call one constructor holding the values
  its f-string formats:
  \<^verbatim>\<open>
  print("Downloading latest CSV from API...")
  print(f"[check mark] CSV downloaded successfully!")
  print(f"  File: {csv_path}")
  print(f"  Size: {file_size_mb:.2f} MB")
  print(f"[cross] Error downloading CSV: {e}")
  print(f"  Status code: {e.response.status_code}")
  print(f"  Response: {e.response.text[:200]}")
  print(f"[cross] Unexpected error: {e}")
  \<close>
\<close>

datatype line =
    Downloading
  | Downloaded
  | File_line pystr
  | Size_line pystr
  | Error_downloading exn
  | Status_code_line nat
  | Response_line pystr
  | Unexpected_error exn

text \<open>
  What a call of \<^verbatim>\<open>download_csv\<close> leaves: the value it returns or the exception that
  leaves it, the lines printed, and the files on disk.
\<close>

datatype result = Returned bool | Raised exn

record outcome =
  result :: result
  printed :: "line list"
  disk_after :: "pystr \<Rightarrow> byte list option"

text \<open>
  \<^verbatim>\<open>
  script_dir = os.path.dirname(os.path.abspath(__file__))
  project_root = os.path.dirname(script_dir)
  csv_path = os.path.join(project_root, "pets.csv")
  \<close>
\<close>

definition csv_path :: "'s env \<Rightarrow> pystr" where
  "csv_path e =
     (let script_dir = dirname (abspath (getcwd e) (script_file e));
          project_root = dirname script_dir
      in join project_root (ascii ''pets.csv''))"

text \<open>
  \<^verbatim>\<open>
  total_size = 0
  with open(csv_path, 'w', encoding='utf-8') as f:
      for chunk in response.iter_content(chunk_size=8192, decode_unicode=True):
          if chunk:
              f.write(chunk)
              total_size += len(chunk.encode('utf-8'))
  \<close>
  \<open>write_chunks\<close> is the body of the loop over the chunks the iterator yields, from a
  value of \<^verbatim>\<open>total_size\<close> and the octets written to the file so far. It returns the
  exception that stops the loop, if any, with both. Writing a \<^verbatim>\<open>bytes\<close> chunk to a text
  file raises \<^verbatim>\<open>TypeError\<close>; a \<^verbatim>\<open>str\<close> that UTF-8 cannot encode raises
  \<^verbatim>\<open>UnicodeEncodeError\<close> and nothing of it is written.
\<close>

definition truthy :: "chunk \<Rightarrow> bool" where
  "truthy c = (case c of StrChunk s \<Rightarrow> s \<noteq> [] | BytesChunk b \<Rightarrow> b \<noteq> [])"

fun write_chunks :: "chunk list \<Rightarrow> nat \<Rightarrow> byte list \<Rightarrow> exn option \<times> nat \<times> byte list" where
  "write_chunks [] total_size written = (None, total_size, written)"
| "write_chunks (c # cs) total_size written =
     (if truthy c then
        (case c of
           BytesChunk b \<Rightarrow> (Some (Exception TypeError), total_size, written)
         | StrChunk s \<Rightarrow>
             (case utf8_encode s of
                None \<Rightarrow> (Some (Exception UnicodeEncodeError), total_size, written)
              | Some bs \<Rightarrow> write_chunks cs (total_size + length bs) (written @ bs)))
      else write_chunks cs total_size written)"

text \<open>
  The \<^verbatim>\<open>try\<close> block of \<^verbatim>\<open>download_csv\<close>, lines 18 to 48: the exception that leaves it
  (\<open>None\<close> when it reaches \<^verbatim>\<open>return True\<close>), the lines printed and the files on disk.
  Opening with mode \<^verbatim>\<open>'w'\<close> empties the file; leaving the \<^verbatim>\<open>with\<close> block closes it, on
  an exception too, so the file then holds what was written until there.
\<close>

definition try_block ::
  "'s env \<Rightarrow> exn option \<times> line list \<times> (pystr \<Rightarrow> byte list option)" where
  "try_block e =
     (case http_get e of
        Inl x \<Rightarrow> (Some x, [Downloading], disk e)
      | Inr response \<Rightarrow>
          (case raise_for_status response of
             Some x \<Rightarrow> (Some x, [Downloading], disk e)
           | None \<Rightarrow>
               (if open_fails e (csv_path e) then
                  (Some (Exception OSError), [Downloading], disk e)
                else
                  (case iter_content (getincrementaldecoder e) response of
                     (chunks, fin) \<Rightarrow>
                       (case write_chunks chunks 0 [] of
                          (werr, total_size, written) \<Rightarrow>
                            (let disk' = (disk e)(csv_path e \<mapsto> written)
                             in case werr of
                                  Some x \<Rightarrow> (Some x, [Downloading], disk')
                                | None \<Rightarrow>
                                    (case fin of
                                       Some x \<Rightarrow> (Some x, [Downloading], disk')
                                     | None \<Rightarrow>
                                         (None,
                                          [Downloading, Downloaded, File_line (csv_path e),
                                           Size_line (format_2f total_size)],
                                          disk'))))))))"

text \<open>
  The two handlers, lines 50 to 58:
  \<^verbatim>\<open>
  except requests.exceptions.RequestException as e:
      print(f"[cross] Error downloading CSV: {e}")
      if hasattr(e, 'response') and e.response is not None:
          print(f"  Status code: {e.response.status_code}")
          print(f"  Response: {e.response.text[:200]}")
      return False
  except Exception as e:
      print(f"[cross] Unexpected error: {e}")
      return False
  \<close>
  An exception raised inside a handler is not caught by the other handler of the same
  \<^verbatim>\<open>try\<close>: it leaves \<^verbatim>\<open>download_csv\<close>.
\<close>

definition handler :: "exn \<Rightarrow> result \<times> line list" where
  "handler x =
     (case x of
        RequestException k resp \<Rightarrow>
          (case resp of
             None \<Rightarrow> (Returned False, [Error_downloading x])
           | Some r \<Rightarrow>
               (case response_text r of
                  Inl x' \<Rightarrow>
                    (Raised x', [Error_downloading x, Status_code_line (status_code r)])
                | Inr t \<Rightarrow>
                    (Returned False,
                     [Error_downloading x, Status_code_line (status_code r),
                      Response_line (take 200 t)])))
      | Exception k \<Rightarrow> (Returned False, [Unexpected_error x]))"

definition download_csv :: "'s env \<Rightarrow> outcome" where
  "download_csv e =
     (case try_block e of
        (None, out, d) \<Rightarrow> \<lparr>result = Returned True, printed = out, disk_after = d\<rparr>
      | (Some x, out, d) \<Rightarrow>
          (case handler x of
             (res, out') \<Rightarrow> \<lparr>result = res, printed = out @ out', disk_after = d\<rparr>))"

text \<open>
  \<^verbatim>\<open>
  if __name__ == "__main__":
      success = download_csv()
      sys.exit(0 if success else 1)
  \<close>
  How the process ends: \<^verbatim>\<open>sys.exit\<close> with a code, or, when an exception leaves
  \<^verbatim>\<open>download_csv\<close>, the interpreter's traceback (which no line of the script decides).
\<close>

datatype exit = SysExit nat | Traceback exn

definition main :: "'s env \<Rightarrow> exit" where
  "main e =
     (case result (download_csv e) of
        Returned success \<Rightarrow> SysExit (if success then 0 else 1)
      | Raised x \<Rightarrow> Traceback x)"

section \<open>Notions the claims are stated with\<close>

text \<open>The text chunks among the chunks an iteration yields.\<close>

fun str_chunks :: "chunk list \<Rightarrow> pystr list" where
  "str_chunks [] = []"
| "str_chunks (StrChunk s # cs) = s # str_chunks cs"
| "str_chunks (BytesChunk b # cs) = str_chunks cs"

text \<open>
  The texts a decoder yields for a body that arrives whole: the loop of
  \<^verbatim>\<open>stream_decode_response_unicode\<close> and its last call with \<^verbatim>\<open>final=True\<close>.
\<close>

definition decoded_texts :: "'s decoder \<Rightarrow> byte list list \<Rightarrow> pystr list" where
  "decoded_texts d raws =
     (case decode_stream d (dec_init d) raws of
        (outs, s) \<Rightarrow>
          (let rv = fst (dec_decode d s [] True)
           in outs @ (if rv \<noteq> [] then [rv] else [])))"

text \<open>
  The octets one run writes to the file for a response: what the loop hands to
  \<^verbatim>\<open>f.write\<close>, encoded. It is a function of the response and the codecs alone.
\<close>

definition written_octets :: "(pystr \<Rightarrow> 's decoder option) \<Rightarrow> response \<Rightarrow> byte list" where
  "written_octets codecs r = snd (snd (write_chunks (fst (iter_content codecs r)) 0 []))"

text \<open>
  A decoder is transparent for ASCII when, from its initial state, it decodes octets below
  80 (hex) to the code points of the same numbers and stays in that state. The decoders of
  UTF-8, ISO-8859-1 and US-ASCII are.
\<close>

definition ascii_octets :: "byte list \<Rightarrow> bool" where
  "ascii_octets bs = list_all (\<lambda>b. unat b < 0x80) bs"

definition ascii_transparent :: "'s decoder \<Rightarrow> bool" where
  "ascii_transparent d =
     (\<forall>input final. ascii_octets input \<longrightarrow>
        dec_decode d (dec_init d) input final = (map unat input, dec_init d))"

text \<open>
  A second run of the script after the run \<open>e\<close>, on the disk the first run left, when the
  server then answers \<open>g\<close>.
\<close>

definition next_run :: "'s env \<Rightarrow> exn + response \<Rightarrow> 's env" where
  "next_run e g = e\<lparr>http_get := g, disk := disk_after (download_csv e)\<rparr>"

section \<open>Example runs\<close>

text \<open>
  Concrete environments, used to evaluate the model. The script lies at
  \<^verbatim>\<open>/proj/server/download_csv.py\<close>, Python knows the codec \<^verbatim>\<open>ISO-8859-1\<close>, and an older
  \<^verbatim>\<open>/proj/pets.csv\<close> is on disk.
\<close>

definition octets :: "string \<Rightarrow> byte list" where
  "octets s = map of_char s"

definition ex_codecs :: "pystr \<Rightarrow> unit decoder option" where
  "ex_codecs name = (if name = ascii ''ISO-8859-1'' then Some latin_1 else None)"

definition ex_disk :: "pystr \<Rightarrow> byte list option" where
  "ex_disk = [ascii ''/proj/pets.csv'' \<mapsto> octets ''old,data'']"

definition ex_env :: "exn + response \<Rightarrow> unit env" where
  "ex_env g =
     \<lparr>script_file = ascii ''/proj/server/download_csv.py'', getcwd = ascii ''/home/u'',
      http_get = g, getincrementaldecoder = ex_codecs, open_fails = (\<lambda>p. False),
      disk = ex_disk\<rparr>"

text \<open>Status 200, declared \<^verbatim>\<open>ISO-8859-1\<close>, an ASCII body in two pieces.\<close>

definition ex_ok :: response where
  "ex_ok =
     \<lparr>status_code = 200, encoding = Some (ascii ''ISO-8859-1''),
      raw_chunks = [octets ''a,b'', octets '',c''], stream_error = None,
      body_text = ascii ''a,b,c''\<rparr>"

text \<open>Status 304 and no body: \<^verbatim>\<open>raise_for_status\<close> does not raise for it.\<close>

definition ex_304 :: response where
  "ex_304 =
     \<lparr>status_code = 304, encoding = None, raw_chunks = [], stream_error = None,
      body_text = []\<rparr>"

text \<open>Status 300 with a body that is not the CSV.\<close>

definition ex_300 :: response where
  "ex_300 =
     \<lparr>status_code = 300, encoding = Some (ascii ''ISO-8859-1''),
      raw_chunks = [octets ''see /a''], stream_error = None, body_text = ascii ''see /a''\<rparr>"

text \<open>Status 401 with a short body.\<close>

definition ex_401 :: response where
  "ex_401 =
     \<lparr>status_code = 401, encoding = Some (ascii ''ISO-8859-1''),
      raw_chunks = [octets ''Unauthorized''], stream_error = None,
      body_text = ascii ''Unauthorized''\<rparr>"

text \<open>Status 500, and the connection breaks while the body of the error page arrives.\<close>

definition ex_500_broken :: response where
  "ex_500_broken =
     \<lparr>status_code = 500, encoding = Some (ascii ''ISO-8859-1''),
      raw_chunks = [octets ''Inter''], stream_error = Some ChunkedEncodingError,
      body_text = []\<rparr>"

text \<open>
  Status 200, a text type with no charset (so \<^verbatim>\<open>r.encoding\<close> is \<^verbatim>\<open>ISO-8859-1\<close>), and a
  body of the single octet E9.
\<close>

definition ex_latin :: response where
  "ex_latin =
     \<lparr>status_code = 200, encoding = Some (ascii ''ISO-8859-1''), raw_chunks = [[0xE9]],
      stream_error = None, body_text = [0xE9]\<rparr>"

section \<open>Facts about the model\<close>

lemmas path_defs =
  csv_path_def abspath_def normpath_def initial_slashes_def dirname_def rstrip_sep_def
  join_def isabs_def dot_def dotdot_def sep_def ascii_def

lemmas run_defs =
  download_csv_def try_block_def handler_def raise_for_status_def response_text_def
  iter_content_def truthy_def latin_1_def utf8_encode_cp_def byte_of_def

lemma ex_env_sel:
  "http_get (ex_env g) = g"
  "getincrementaldecoder (ex_env g) = ex_codecs"
  "open_fails (ex_env g) p = False"
  "disk (ex_env g) = ex_disk"
  by (simp_all add: ex_env_def)

lemma csv_path_ex_env: "csv_path (ex_env g) = ascii ''/proj/pets.csv''"
  by (simp add: ex_env_def path_defs)

lemmas ex_defs = ex_env_sel csv_path_ex_env ex_codecs_def ex_disk_def octets_def

subsection \<open>What the encoder writes is well-formed UTF-8\<close>

lemma unat_byte_of: "n < 256 \<Longrightarrow> unat (byte_of n) = n"
  by (simp add: byte_of_def unat_of_nat)

lemma cont_byte_of: "n < 64 \<Longrightarrow> cont (byte_of (0x80 + n))"
proof -
  assume "n < 64"
  then have "unat (byte_of (0x80 + n)) = 0x80 + n" by (intro unat_byte_of) simp
  with \<open>n < 64\<close> show ?thesis by (simp add: cont_def)
qed

lemma second_ok_3:
  assumes "0x800 \<le> c" "c < 0x10000" "\<not> (0xD800 \<le> c \<and> c \<le> 0xDFFF)"
  shows "second_ok (0xE0 + c div 4096) (byte_of (0x80 + c div 64 mod 64))"
proof -
  define x where "x = c div 64"
  have u: "unat (byte_of (0x80 + x mod 64)) = 0x80 + x mod 64"
    by (rule unat_byte_of) simp
  have m: "x mod 64 \<le> 63" by simp
  have d: "c div 4096 < 16" using assms(2) by simp
  consider (lo) "c div 4096 = 0" | (ed) "c div 4096 = 13"
    | (other) "c div 4096 \<noteq> 0" "c div 4096 \<noteq> 13" by blast
  then have "second_ok (0xE0 + c div 4096) (byte_of (0x80 + x mod 64))"
  proof cases
    case lo
    then have "c < 4096" by simp
    with assms(1) have "32 \<le> x" "x < 64" unfolding x_def by simp_all
    then have "32 \<le> x mod 64" by simp
    with lo m show ?thesis by (simp add: second_ok_def u)
  next
    case ed
    then have "53248 \<le> c" "c < 57344" by simp_all
    with assms(3) have "c < 55296" by simp
    with \<open>53248 \<le> c\<close> have "832 \<le> x" "x < 864" unfolding x_def by simp_all
    then have "x mod 64 < 32" by presburger
    with ed show ?thesis by (simp add: second_ok_def u)
  next
    case other
    with d m show ?thesis by (simp add: second_ok_def cont_def u)
  qed
  then show ?thesis by (simp add: x_def)
qed

lemma second_ok_4:
  assumes "0x10000 \<le> c" "c < 0x110000"
  shows "second_ok (0xF0 + c div 262144) (byte_of (0x80 + c div 4096 mod 64))"
proof -
  define x where "x = c div 4096"
  have u: "unat (byte_of (0x80 + x mod 64)) = 0x80 + x mod 64"
    by (rule unat_byte_of) simp
  have m: "x mod 64 \<le> 63" by simp
  have d: "c div 262144 \<le> 4" using assms(2) by simp
  consider (lo) "c div 262144 = 0" | (hi) "c div 262144 = 4"
    | (other) "c div 262144 \<noteq> 0" "c div 262144 \<noteq> 4" by blast
  then have "second_ok (0xF0 + c div 262144) (byte_of (0x80 + x mod 64))"
  proof cases
    case lo
    then have "c < 262144" by simp
    with assms(1) have "16 \<le> x" "x < 64" unfolding x_def by simp_all
    then have "16 \<le> x mod 64" by simp
    with lo m show ?thesis by (simp add: second_ok_def u)
  next
    case hi
    then have "1048576 \<le> c" by simp
    with assms(2) have "256 \<le> x" "x < 272" unfolding x_def by simp_all
    then have "x mod 64 < 16" by presburger
    with hi show ?thesis by (simp add: second_ok_def u)
  next
    case other
    with d m show ?thesis by (simp add: second_ok_def cont_def u)
  qed
  then show ?thesis by (simp add: x_def)
qed


lemma utf8_encode_append:
  "utf8_encode (a @ b) =
     (case utf8_encode a of
        None \<Rightarrow> None
      | Some x \<Rightarrow> (case utf8_encode b of None \<Rightarrow> None | Some y \<Rightarrow> Some (x @ y)))"
  by (induction a) (auto split: option.splits)

lemma utf8_valid_encode_cp:
  assumes "utf8_encode_cp c = Some bs"
  shows "utf8_valid (bs @ rest) = utf8_valid rest"
proof -
  consider (one) "c < 0x80"
    | (two) "0x80 \<le> c" "c < 0x800"
    | (three) "0x800 \<le> c" "c < 0x10000" "\<not> (0xD800 \<le> c \<and> c \<le> 0xDFFF)"
    | (four) "0x10000 \<le> c" "c < 0x110000"
    | (none) "(0xD800 \<le> c \<and> c \<le> 0xDFFF) \<or> 0x110000 \<le> c"
    by linarith
  then show ?thesis
  proof cases
    case one
    with assms have bs: "bs = [byte_of c]" by (simp add: utf8_encode_cp_def)
    from one have "unat (byte_of c) = c" by (intro unat_byte_of) simp
    then show ?thesis using one by (simp add: bs)
  next
    case two
    with assms have bs: "bs = [byte_of (0xC0 + c div 64), byte_of (0x80 + c mod 64)]"
      by (simp add: utf8_encode_cp_def)
    from two have r: "2 \<le> c div 64" "c div 64 < 32" by simp_all
    then have b0: "unat (byte_of (0xC0 + c div 64)) = 0xC0 + c div 64"
      by (intro unat_byte_of) simp
    have b1: "cont (byte_of (0x80 + c mod 64))"
      by (rule cont_byte_of) simp
    show ?thesis using r by (simp add: bs b0 b1)
  next
    case three
    with assms have bs: "bs = [byte_of (0xE0 + c div 4096), byte_of (0x80 + c div 64 mod 64),
              byte_of (0x80 + c mod 64)]"
      by (simp add: utf8_encode_cp_def)
    from three have r: "c div 4096 < 16" by simp
    then have b0: "unat (byte_of (0xE0 + c div 4096)) = 0xE0 + c div 4096"
      by (intro unat_byte_of) simp
    have b1: "second_ok (0xE0 + c div 4096) (byte_of (0x80 + c div 64 mod 64))"
      using three by (rule second_ok_3)
    have b2: "cont (byte_of (0x80 + c mod 64))"
      by (rule cont_byte_of) simp
    show ?thesis using r by (simp add: bs b0 b1 b2)
  next
    case four
    with assms have bs: "bs = [byte_of (0xF0 + c div 262144), byte_of (0x80 + c div 4096 mod 64),
              byte_of (0x80 + c div 64 mod 64), byte_of (0x80 + c mod 64)]"
      by (simp add: utf8_encode_cp_def)
    from four have r: "c div 262144 \<le> 4" by simp
    then have b0: "unat (byte_of (0xF0 + c div 262144)) = 0xF0 + c div 262144"
      by (intro unat_byte_of) simp
    have b1: "second_ok (0xF0 + c div 262144) (byte_of (0x80 + c div 4096 mod 64))"
      using four by (rule second_ok_4)
    have b2: "cont (byte_of (0x80 + c div 64 mod 64))"
      by (rule cont_byte_of) simp
    have b3: "cont (byte_of (0x80 + c mod 64))"
      by (rule cont_byte_of) simp
    show ?thesis using r by (simp add: bs b0 b1 b2 b3)
  next
    case none
    with assms show ?thesis by (auto simp: utf8_encode_cp_def split: if_splits)
  qed
qed

lemma utf8_encode_valid: "utf8_encode s = Some bs \<Longrightarrow> utf8_valid bs"
proof (induction s arbitrary: bs)
  case Nil
  then show ?case by simp
next
  case (Cons c cs)
  then obtain x y where "utf8_encode_cp c = Some x" "utf8_encode cs = Some y" "bs = x @ y"
    by (auto split: option.splits)
  with Cons.IH show ?case by (simp add: utf8_valid_encode_cp)
qed

subsection \<open>The write loop and a successful run\<close>

lemma write_chunks_ok:
  "write_chunks cs t w = (None, t', w') \<Longrightarrow>
   \<exists>bs. utf8_encode (concat (str_chunks cs)) = Some bs \<and> w' = w @ bs \<and> t' = t + length bs"
proof (induction cs arbitrary: t w)
  case Nil
  then show ?case by simp
next
  case (Cons c cs)
  show ?case
  proof (cases c)
    case (StrChunk s)
    show ?thesis
    proof (cases "s = []")
      case True
      with Cons StrChunk show ?thesis by (simp add: truthy_def)
    next
      case False
      with Cons.prems StrChunk obtain b1 where
        b1: "utf8_encode s = Some b1" and
        rec: "write_chunks cs (t + length b1) (w @ b1) = (None, t', w')"
        by (auto simp: truthy_def split: option.splits)
      from Cons.IH [OF rec] obtain b2 where
        "utf8_encode (concat (str_chunks cs)) = Some b2" "w' = (w @ b1) @ b2"
        "t' = t + length b1 + length b2" by blast
      with b1 StrChunk show ?thesis by (simp add: utf8_encode_append)
    qed
  next
    case (BytesChunk b)
    with Cons show ?thesis by (auto simp: truthy_def split: if_splits)
  qed
qed

lemma download_csv_True:
  assumes "result (download_csv e) = Returned True"
  obtains r chunks total_size written where
    "http_get e = Inr r" "raise_for_status r = None" "\<not> open_fails e (csv_path e)"
    "iter_content (getincrementaldecoder e) r = (chunks, None)"
    "write_chunks chunks 0 [] = (None, total_size, written)"
    "download_csv e =
       \<lparr>result = Returned True,
        printed = [Downloading, Downloaded, File_line (csv_path e), Size_line (format_2f total_size)],
        disk_after = (disk e)(csv_path e \<mapsto> written)\<rparr>"
proof -
  have h: "handler x \<noteq> (Returned True, out)" for x out
    by (simp add: handler_def split: exn.splits option.splits sum.splits)
  from assms obtain out d where tb: "try_block e = (None, out, d)"
    using h by (auto simp: download_csv_def split: prod.splits option.splits)
  then show ?thesis
    using that
    by (auto simp: try_block_def download_csv_def Let_def split: sum.splits option.splits if_splits prod.splits)
qed

subsection \<open>ASCII bodies\<close>

lemma write_chunks_strs:
  "utf8_encode (concat strs) = Some bs \<Longrightarrow>
   write_chunks (map StrChunk strs) t w = (None, t + length bs, w @ bs)"
proof (induction strs arbitrary: t w bs)
  case Nil
  then show ?case by simp
next
  case (Cons s strs)
  from Cons.prems obtain b1 b2 where
    b: "utf8_encode s = Some b1" "utf8_encode (concat strs) = Some b2" "bs = b1 @ b2"
    by (auto simp: utf8_encode_append split: option.splits)
  show ?case
  proof (cases "s = []")
    case True
    with b Cons.IH [OF b(2)] show ?thesis by (simp add: truthy_def)
  next
    case False
    with b Cons.IH [OF b(2), of "t + length b1" "w @ b1"] show ?thesis
      by (simp add: truthy_def)
  qed
qed

lemma str_chunks_map [simp]: "str_chunks (map StrChunk strs) = strs"
  by (induction strs) simp_all

lemma utf8_encode_ascii:
  "ascii_octets bs \<Longrightarrow> utf8_encode (map unat bs) = Some bs"
  by (induction bs) (simp_all add: ascii_octets_def utf8_encode_cp_def byte_of_def)

lemma decode_stream_ascii:
  assumes "ascii_transparent d" "ascii_octets (concat raws)"
  shows "decode_stream d (dec_init d) raws =
           (filter (\<lambda>s. s \<noteq> []) (map (map unat) raws), dec_init d)"
  using assms(2)
proof (induction raws)
  case Nil
  then show ?case by simp
next
  case (Cons c raws)
  then have "ascii_octets c" "ascii_octets (concat raws)"
    by (simp_all add: ascii_octets_def)
  with Cons.IH assms(1) show ?case
    by (simp add: ascii_transparent_def)
qed

lemma concat_nonempty: "concat (filter (\<lambda>s. s \<noteq> []) xs) = concat xs"
  by (induction xs) simp_all

lemma decoded_texts_ascii:
  assumes "ascii_transparent d" "ascii_octets (concat raws)"
  shows "concat (decoded_texts d raws) = map unat (concat raws)"
proof -
  have "dec_decode d (dec_init d) [] True = ([], dec_init d)"
    using assms(1) by (simp add: ascii_transparent_def ascii_octets_def)
  then show ?thesis
    by (simp add: decoded_texts_def decode_stream_ascii [OF assms] concat_nonempty map_concat)
qed

lemma iter_content_whole:
  assumes "encoding r = Some name" "codecs name = Some d" "stream_error r = None"
  shows "iter_content codecs r = (map StrChunk (decoded_texts d (raw_chunks r)), None)"
  using assms by (simp add: iter_content_def decoded_texts_def Let_def split: prod.splits)

section \<open>The exit code\<close>

text \<open>
  Claim C4. The process exits with code 0 exactly when \<^verbatim>\<open>download_csv\<close> returned \<^verbatim>\<open>True\<close>,
  with code 1 exactly when it returned \<^verbatim>\<open>False\<close>, and \<^verbatim>\<open>sys.exit\<close> is given no other code.
\<close>

theorem main_exit_code:
  "(main e = SysExit 0 \<longleftrightarrow> result (download_csv e) = Returned True) \<and>
   (main e = SysExit 1 \<longleftrightarrow> result (download_csv e) = Returned False) \<and>
   (\<forall>c. main e = SysExit c \<longrightarrow> c = 0 \<or> c = 1)"
  by (auto simp: main_def split: result.splits)

theorem main_exit_code_witness:
  "main (ex_env (Inr ex_ok)) = SysExit 0 \<and>
   result (download_csv (ex_env (Inr ex_ok))) = Returned True"
  using main_exit_code [of "ex_env (Inr ex_ok)"]
  by (simp add: run_defs ex_defs ex_ok_def)

section \<open>HTTP status errors\<close>

lemma try_block_http_error:
  assumes "http_get e = Inr r" "400 \<le> status_code r" "status_code r < 600"
  shows "try_block e = (Some (RequestException HTTPError (Some r)), [Downloading], disk e)"
  using assms by (simp add: try_block_def raise_for_status_def)

text \<open>
  Claim C2, as the code has it. \<^verbatim>\<open>raise_for_status\<close> raises for the statuses 400 to 599
  and for no other. For such a status no file on disk changes (the exception is raised
  before \<^verbatim>\<open>open\<close>), \<^verbatim>\<open>download_csv\<close> does not return \<^verbatim>\<open>True\<close>, and it returns
  \<^verbatim>\<open>False\<close> when the body of the error response can be read.
\<close>

theorem http_error_leaves_disk:
  assumes "http_get e = Inr r" "400 \<le> status_code r" "status_code r < 600"
  shows "disk_after (download_csv e) = disk e \<and>
         result (download_csv e) \<noteq> Returned True \<and>
         (stream_error r = None \<longrightarrow> result (download_csv e) = Returned False)"
  using try_block_http_error [OF assms]
  by (simp add: download_csv_def handler_def response_text_def split: option.splits)

theorem http_error_leaves_disk_witness:
  "http_get (ex_env (Inr ex_401)) = Inr ex_401 \<and>
   400 \<le> status_code ex_401 \<and> status_code ex_401 < 600 \<and>
   disk_after (download_csv (ex_env (Inr ex_401))) = ex_disk \<and>
   result (download_csv (ex_env (Inr ex_401))) = Returned False"
  using http_error_leaves_disk [of "ex_env (Inr ex_401)" ex_401]
  by (simp add: ex_env_sel ex_401_def)

text \<open>
  Claim C2 as the spec states it fails for a status outside 200 to 299 that is not an
  error status: with 304 the run returns \<^verbatim>\<open>True\<close> and the older file is emptied.
\<close>

theorem not_modified_overwrites_counterexample:
  "http_get (ex_env (Inr ex_304)) = Inr ex_304 \<and> status_code ex_304 = 304 \<and>
   result (download_csv (ex_env (Inr ex_304))) = Returned True \<and>
   disk (ex_env (Inr ex_304)) (ascii ''/proj/pets.csv'') = Some (octets ''old,data'') \<and>
   disk_after (download_csv (ex_env (Inr ex_304))) (ascii ''/proj/pets.csv'') = Some []"
  by (simp add: run_defs ex_defs ex_304_def)

text \<open>
  Claim C3, as the code has it. For a status from 400 to 599 whose body can be read,
  \<^verbatim>\<open>download_csv\<close> returns \<^verbatim>\<open>False\<close> and prints the error, the numeric status code and
  the first 200 characters of the response text.
\<close>

theorem http_error_diagnostics:
  assumes "http_get e = Inr r" "400 \<le> status_code r" "status_code r < 600"
    and "stream_error r = None"
  shows "result (download_csv e) = Returned False \<and>
         printed (download_csv e) =
           [Downloading, Error_downloading (RequestException HTTPError (Some r)),
            Status_code_line (status_code r), Response_line (take 200 (body_text r))] \<and>
         length (take 200 (body_text r)) \<le> 200"
  using try_block_http_error [OF assms(1-3)] assms(4)
  by (simp add: download_csv_def handler_def response_text_def)

theorem http_error_diagnostics_witness:
  "http_get (ex_env (Inr ex_401)) = Inr ex_401 \<and>
   400 \<le> status_code ex_401 \<and> status_code ex_401 < 600 \<and> stream_error ex_401 = None \<and>
   result (download_csv (ex_env (Inr ex_401))) = Returned False \<and>
   printed (download_csv (ex_env (Inr ex_401))) =
     [Downloading, Error_downloading (RequestException HTTPError (Some ex_401)),
      Status_code_line 401, Response_line (ascii ''Unauthorized'')]"
  using http_error_diagnostics [of "ex_env (Inr ex_401)" ex_401]
  by (simp add: ex_env_sel ex_401_def ascii_def)

text \<open>
  Claim C3 as the spec states it fails for status 300: the run is reported as a success,
  no status code and no excerpt are printed, and the body becomes the file.
\<close>

theorem multiple_choices_counterexample:
  "http_get (ex_env (Inr ex_300)) = Inr ex_300 \<and> status_code ex_300 = 300 \<and>
   result (download_csv (ex_env (Inr ex_300))) = Returned True \<and>
   printed (download_csv (ex_env (Inr ex_300))) =
     [Downloading, Downloaded, File_line (ascii ''/proj/pets.csv''),
      Size_line (ascii ''0.00'')] \<and>
   disk_after (download_csv (ex_env (Inr ex_300))) (ascii ''/proj/pets.csv'') =
     Some (octets ''see /a'')"
  by (simp add: run_defs ex_defs ex_300_def format_2f_def hundredths_def show_nat.simps)
     (simp add: ascii_def)

section \<open>Exceptions that leave download\_csv\<close>

text \<open>
  Claim C5 at a failing input. The server answers 500 and the connection breaks while the
  body arrives. \<^verbatim>\<open>raise_for_status\<close> raises, the first handler prints the status code and
  then reads \<^verbatim>\<open>e.response.text\<close>, which raises \<^verbatim>\<open>ChunkedEncodingError\<close> inside the
  handler: the exception leaves \<^verbatim>\<open>download_csv\<close>, no boolean is returned and the process
  ends in a traceback.
\<close>

theorem handler_raises_on_broken_error_body:
  "http_get (ex_env (Inr ex_500_broken)) = Inr ex_500_broken \<and>
   result (download_csv (ex_env (Inr ex_500_broken))) =
     Raised (RequestException ChunkedEncodingError None) \<and>
   main (ex_env (Inr ex_500_broken)) =
     Traceback (RequestException ChunkedEncodingError None)"
  by (simp add: main_def run_defs ex_defs ex_500_broken_def)

text \<open>
  It is the only way out: an exception leaves \<^verbatim>\<open>download_csv\<close> only when the \<^verbatim>\<open>try\<close>
  block raised a requests exception that carries a response whose body cannot be read.
  Every other exception of the block is caught and \<^verbatim>\<open>False\<close> is returned.
\<close>

lemma raised_only_by_error_body:
  assumes "result (download_csv e) = Raised x"
  shows "\<exists>k r k' out d.
           try_block e = (Some (RequestException k (Some r)), out, d) \<and>
           stream_error r = Some k' \<and> x = RequestException k' None"
proof -
  obtain a out d where tb: "try_block e = (a, out, d)" by (cases "try_block e") auto
  with assms obtain y where a: "a = Some y" and h: "fst (handler y) = Raised x"
    by (cases a) (auto simp: download_csv_def split: prod.splits)
  from h obtain k r k' where "y = RequestException k (Some r)" "stream_error r = Some k'"
    "x = RequestException k' None"
    by (auto simp: handler_def response_text_def split: exn.splits option.splits sum.splits)
  with tb a show ?thesis by blast
qed

section \<open>What a successful run writes\<close>

text \<open>
  Claim C10. After every run that returns \<^verbatim>\<open>True\<close> the output file holds well-formed
  UTF-8: it is the UTF-8 encoding of the text chunks the iteration yielded, which are the
  texts the decoder of the response's declared encoding produced from the wire octets.
  The loop's \<^verbatim>\<open>total_size\<close> is the number of these re-encoded octets, and it is what the
  size line prints. Nothing is written when the response declares no encoding.
\<close>

theorem written_file_is_utf8:
  assumes "result (download_csv e) = Returned True"
  shows "\<exists>r chunks content.
           http_get e = Inr r \<and>
           iter_content (getincrementaldecoder e) r = (chunks, None) \<and>
           utf8_encode (concat (str_chunks chunks)) = Some content \<and>
           write_chunks chunks 0 [] = (None, length content, content) \<and>
           disk_after (download_csv e) (csv_path e) = Some content \<and>
           utf8_valid content \<and>
           printed (download_csv e) =
             [Downloading, Downloaded, File_line (csv_path e),
              Size_line (format_2f (length content))] \<and>
           (\<forall>name d. encoding r = Some name \<longrightarrow> getincrementaldecoder e name = Some d \<longrightarrow>
              str_chunks chunks = decoded_texts d (raw_chunks r)) \<and>
           (content \<noteq> [] \<longrightarrow> encoding r \<noteq> None)"
proof -
  from assms obtain r chunks total_size written where
    g: "http_get e = Inr r" and
    it: "iter_content (getincrementaldecoder e) r = (chunks, None)" and
    wc: "write_chunks chunks 0 [] = (None, total_size, written)" and
    dl: "download_csv e =
       \<lparr>result = Returned True,
        printed = [Downloading, Downloaded, File_line (csv_path e), Size_line (format_2f total_size)],
        disk_after = (disk e)(csv_path e \<mapsto> written)\<rparr>"
    by (rule download_csv_True)
  from write_chunks_ok [OF wc] have
    enc: "utf8_encode (concat (str_chunks chunks)) = Some written" and
    tot: "total_size = length written" by auto
  have valid: "utf8_valid written" using enc by (rule utf8_encode_valid)
  have se: "stream_error r = None"
    using it by (auto simp: iter_content_def Let_def split: option.splits prod.splits if_splits)
  have dec: "str_chunks chunks = decoded_texts d (raw_chunks r)"
    if "encoding r = Some name" "getincrementaldecoder e name = Some d" for name d
    using iter_content_whole [of r name "getincrementaldecoder e" d] that se it by simp
  have ne: "encoding r \<noteq> None" if "written \<noteq> []"
  proof
    assume n: "encoding r = None"
    with it have c: "chunks = map BytesChunk (raw_chunks r)"
      by (simp add: iter_content_def Let_def)
    have "str_chunks (map BytesChunk xs) = []" for xs
      by (induction xs) simp_all
    with c enc have "written = []" by simp
    with that show False by simp
  qed
  show ?thesis
    using g it enc wc valid dec ne by (simp add: dl tot)
qed

theorem written_file_is_utf8_witness:
  "result (download_csv (ex_env (Inr ex_latin))) = Returned True \<and>
   concat (raw_chunks ex_latin) = [0xE9] \<and>
   disk_after (download_csv (ex_env (Inr ex_latin))) (ascii ''/proj/pets.csv'') =
     Some [0xC3, 0xA9] \<and>
   utf8_valid [0xC3, 0xA9] \<and> \<not> utf8_valid [0xE9]"
proof -
  have c: "result (download_csv (ex_env (Inr ex_latin))) = Returned True \<and>
    concat (raw_chunks ex_latin) = [0xE9] \<and>
    disk_after (download_csv (ex_env (Inr ex_latin))) (ascii ''/proj/pets.csv'') =
      Some [0xC3, 0xA9] \<and>
    utf8_valid [0xC3, 0xA9] \<and> \<not> utf8_valid [0xE9]"
    by (simp add: run_defs ex_defs ex_latin_def cont_def)
  then have r: "result (download_csv (ex_env (Inr ex_latin))) = Returned True"
    by (rule conjunct1)
  from written_file_is_utf8 [OF r] show ?thesis
    by - (rule c)
qed

lemma ascii_run:
  assumes g: "http_get e = Inr r" and st: "raise_for_status r = None"
    and op: "\<not> open_fails e (csv_path e)" and se: "stream_error r = None"
    and en: "encoding r = Some name" and co: "getincrementaldecoder e name = Some d"
    and tr: "ascii_transparent d" and as: "ascii_octets (concat (raw_chunks r))"
  shows "download_csv e =
           \<lparr>result = Returned True,
            printed = [Downloading, Downloaded, File_line (csv_path e),
                       Size_line (format_2f (length (concat (raw_chunks r))))],
            disk_after = (disk e)(csv_path e \<mapsto> concat (raw_chunks r))\<rparr>"
proof -
  let ?body = "concat (raw_chunks r)"
  have it: "iter_content (getincrementaldecoder e) r =
      (map StrChunk (decoded_texts d (raw_chunks r)), None)"
    using en co se by (rule iter_content_whole)
  have "utf8_encode (concat (decoded_texts d (raw_chunks r))) = Some ?body"
    using decoded_texts_ascii [OF tr as] utf8_encode_ascii [OF as] by simp
  then have wc: "write_chunks (map StrChunk (decoded_texts d (raw_chunks r))) 0 [] =
      (None, length ?body, ?body)"
    using write_chunks_strs [of "decoded_texts d (raw_chunks r)" ?body 0 "[]"] by simp
  show ?thesis
    using g st op by (simp add: download_csv_def try_block_def it wc)
qed

lemma raise_for_status_2xx:
  "200 \<le> status_code r \<Longrightarrow> status_code r < 300 \<Longrightarrow> raise_for_status r = None"
  by (simp add: raise_for_status_def)

text \<open>
  Claim C1, as the code has it. The script decodes the body with the response's declared
  encoding and writes the text as UTF-8. For a response with a status from 200 to 299 whose
  body arrives whole and holds only ASCII octets, under a declared encoding whose decoder
  is transparent for ASCII, and when the file can be opened, \<^verbatim>\<open>download_csv\<close> returns
  \<^verbatim>\<open>True\<close> and the output file exists, has the length of the body and equals it octet
  for octet.
\<close>

theorem ascii_body_round_trip:
  assumes "http_get e = Inr r" "200 \<le> status_code r" "status_code r < 300"
    and "\<not> open_fails e (csv_path e)" "stream_error r = None"
    and "encoding r = Some name" "getincrementaldecoder e name = Some d"
    and "ascii_transparent d" "ascii_octets (concat (raw_chunks r))"
  shows "result (download_csv e) = Returned True \<and>
         (\<exists>content. disk_after (download_csv e) (csv_path e) = Some content \<and>
            length content = length (concat (raw_chunks r)) \<and>
            content = concat (raw_chunks r))"
  using ascii_run [OF assms(1) raise_for_status_2xx [OF assms(2,3)] assms(4-9)]
  by simp

lemma ascii_transparent_latin_1: "ascii_transparent latin_1"
  by (simp add: ascii_transparent_def latin_1_def)

theorem ascii_body_round_trip_witness:
  "http_get (ex_env (Inr ex_ok)) = Inr ex_ok \<and> status_code ex_ok = 200 \<and>
   \<not> open_fails (ex_env (Inr ex_ok)) (csv_path (ex_env (Inr ex_ok))) \<and>
   stream_error ex_ok = None \<and> encoding ex_ok = Some (ascii ''ISO-8859-1'') \<and>
   getincrementaldecoder (ex_env (Inr ex_ok)) (ascii ''ISO-8859-1'') = Some latin_1 \<and>
   ascii_transparent latin_1 \<and> ascii_octets (concat (raw_chunks ex_ok)) \<and>
   concat (raw_chunks ex_ok) = octets ''a,b,c'' \<and>
   result (download_csv (ex_env (Inr ex_ok))) = Returned True \<and>
   disk_after (download_csv (ex_env (Inr ex_ok))) (csv_path (ex_env (Inr ex_ok))) =
     Some (octets ''a,b,c'')"
proof -
  have h: "http_get (ex_env (Inr ex_ok)) = Inr ex_ok" "200 \<le> status_code ex_ok"
    "status_code ex_ok < 300"
    "\<not> open_fails (ex_env (Inr ex_ok)) (csv_path (ex_env (Inr ex_ok)))"
    "stream_error ex_ok = None" "encoding ex_ok = Some (ascii ''ISO-8859-1'')"
    "getincrementaldecoder (ex_env (Inr ex_ok)) (ascii ''ISO-8859-1'') = Some latin_1"
    "ascii_octets (concat (raw_chunks ex_ok))"
    "concat (raw_chunks ex_ok) = octets ''a,b,c''" "status_code ex_ok = 200"
    by (simp_all add: ex_env_sel ex_ok_def ex_codecs_def ascii_octets_def octets_def)
  from ascii_body_round_trip [OF h(1-7) ascii_transparent_latin_1 h(8)] h
    ascii_transparent_latin_1
  show ?thesis by simp
qed

text \<open>
  Claim C1 as the spec states it fails for a body that is not ASCII: the single octet E9,
  served as a text type without charset, is decoded as ISO-8859-1 and written as the two
  octets C3 A9.
\<close>

theorem latin_1_body_counterexample:
  "http_get (ex_env (Inr ex_latin)) = Inr ex_latin \<and> status_code ex_latin = 200 \<and>
   concat (raw_chunks ex_latin) = [0xE9] \<and>
   result (download_csv (ex_env (Inr ex_latin))) = Returned True \<and>
   disk_after (download_csv (ex_env (Inr ex_latin))) (csv_path (ex_env (Inr ex_latin))) =
     Some [0xC3, 0xA9] \<and>
   length [0xC3, 0xA9 :: byte] \<noteq> length (concat (raw_chunks ex_latin))"
  by (simp add: run_defs ex_defs ex_latin_def)

section \<open>Two runs in succession\<close>

lemma success_writes_octets:
  assumes "result (download_csv e) = Returned True" "http_get e = Inr r"
  shows "disk_after (download_csv e) =
           (disk e)(csv_path e \<mapsto> written_octets (getincrementaldecoder e) r)"
proof -
  from assms(1) obtain r' chunks total_size written where
    g: "http_get e = Inr r'" and
    it: "iter_content (getincrementaldecoder e) r' = (chunks, None)" and
    wc: "write_chunks chunks 0 [] = (None, total_size, written)" and
    dl: "download_csv e =
       \<lparr>result = Returned True,
        printed = [Downloading, Downloaded, File_line (csv_path e), Size_line (format_2f total_size)],
        disk_after = (disk e)(csv_path e \<mapsto> written)\<rparr>"
    by (rule download_csv_True)
  from g assms(2) have "r' = r" by simp
  with it wc show ?thesis by (simp add: dl written_octets_def)
qed

lemma only_csv_path_changes:
  "p \<noteq> csv_path e \<Longrightarrow> disk_after (download_csv e) p = disk e p"
  by (auto simp: download_csv_def try_block_def Let_def
      split: sum.splits option.splits prod.splits if_splits)

lemma next_run_sel:
  "http_get (next_run e g) = g" "disk (next_run e g) = disk_after (download_csv e)"
  "getincrementaldecoder (next_run e g) = getincrementaldecoder e"
  "open_fails (next_run e g) = open_fails e" "csv_path (next_run e g) = csv_path e"
  by (simp_all add: next_run_def csv_path_def)

text \<open>
  Claim C7, as the code has it. When a run that returned \<^verbatim>\<open>True\<close> for body A is followed by
  a run that returns \<^verbatim>\<open>True\<close> for body B, the file held what the first run wrote for A
  and afterwards holds exactly what the second run writes for B, which depends on B and
  the codecs alone: nothing of A is left, nothing is appended. What a run writes is the
  UTF-8 encoding of the decoded body; it is B itself when B is ASCII and the decoder of the
  declared encoding is transparent for ASCII.
\<close>

theorem second_run_replaces_first:
  assumes "http_get e = Inr rA" "result (download_csv e) = Returned True"
    and "result (download_csv (next_run e (Inr rB))) = Returned True"
  shows "disk (next_run e (Inr rB)) (csv_path e) =
           Some (written_octets (getincrementaldecoder e) rA) \<and>
         disk_after (download_csv (next_run e (Inr rB))) (csv_path e) =
           Some (written_octets (getincrementaldecoder e) rB) \<and>
         (\<forall>name d. encoding rB = Some name \<longrightarrow> getincrementaldecoder e name = Some d \<longrightarrow>
            ascii_transparent d \<longrightarrow> ascii_octets (concat (raw_chunks rB)) \<longrightarrow>
            written_octets (getincrementaldecoder e) rB = concat (raw_chunks rB))"
proof -
  let ?e2 = "next_run e (Inr rB)"
  have a: "disk ?e2 (csv_path e) = Some (written_octets (getincrementaldecoder e) rA)"
    using success_writes_octets [OF assms(2,1)] by (simp add: next_run_sel)
  have b: "disk_after (download_csv ?e2) (csv_path e) =
      Some (written_octets (getincrementaldecoder e) rB)"
    using success_writes_octets [OF assms(3), of rB] by (simp add: next_run_sel)
  from assms(3) obtain r' chunks where
    g: "http_get ?e2 = Inr r'" and
    it: "iter_content (getincrementaldecoder ?e2) r' = (chunks, None)"
    by (rule download_csv_True)
  then have it': "iter_content (getincrementaldecoder e) rB = (chunks, None)"
    by (simp add: next_run_sel)
  have se: "stream_error rB = None"
    using it' by (auto simp: iter_content_def Let_def split: option.splits prod.splits if_splits)
  have c: "written_octets (getincrementaldecoder e) rB = concat (raw_chunks rB)"
    if "encoding rB = Some name" "getincrementaldecoder e name = Some d"
      "ascii_transparent d" "ascii_octets (concat (raw_chunks rB))" for name d
  proof -
    have i: "iter_content (getincrementaldecoder e) rB =
        (map StrChunk (decoded_texts d (raw_chunks rB)), None)"
      using that(1,2) se by (rule iter_content_whole)
    have "utf8_encode (concat (decoded_texts d (raw_chunks rB))) =
        Some (concat (raw_chunks rB))"
      using decoded_texts_ascii [OF that(3,4)] utf8_encode_ascii [OF that(4)] by simp
    then show ?thesis
      using write_chunks_strs [of "decoded_texts d (raw_chunks rB)" "concat (raw_chunks rB)" 0 "[]"]
      by (simp add: written_octets_def i)
  qed
  from a b c show ?thesis by blast
qed

lemma ex_run_latin:
  "result (download_csv (ex_env (Inr ex_latin))) = Returned True"
  "disk_after (download_csv (ex_env (Inr ex_latin))) = ex_disk(ascii ''/proj/pets.csv'' \<mapsto> [0xC3, 0xA9])"
  by (simp_all add: run_defs ex_defs ex_latin_def)

theorem second_run_replaces_first_witness:
  "http_get (ex_env (Inr ex_latin)) = Inr ex_latin \<and>
   result (download_csv (ex_env (Inr ex_latin))) = Returned True \<and>
   result (download_csv (next_run (ex_env (Inr ex_latin)) (Inr ex_ok))) = Returned True \<and>
   disk (next_run (ex_env (Inr ex_latin)) (Inr ex_ok)) (ascii ''/proj/pets.csv'') =
     Some [0xC3, 0xA9] \<and>
   disk_after (download_csv (next_run (ex_env (Inr ex_latin)) (Inr ex_ok)))
     (ascii ''/proj/pets.csv'') = Some (octets ''a,b,c'')"
proof -
  have r2: "result (download_csv (next_run (ex_env (Inr ex_latin)) (Inr ex_ok))) = Returned True"
    by (simp add: run_defs next_run_sel ex_defs ex_ok_def)
  have w: "written_octets ex_codecs ex_latin = [0xC3, 0xA9]"
    "written_octets ex_codecs ex_ok = octets ''a,b,c''"
    by (simp_all add: written_octets_def run_defs ex_defs ex_ok_def ex_latin_def)
  from second_run_replaces_first [OF ex_env_sel(1) ex_run_latin(1) r2] r2 w
  show ?thesis by (simp add: ex_defs ex_run_latin(1))
qed

text \<open>
  Claim C7 as the spec states it (the file contains exactly B) fails when B is not ASCII:
  after the body \<^verbatim>\<open>a,b,c\<close> and then the body E9, the file holds C3 A9.
\<close>

theorem second_run_transcodes_counterexample:
  "result (download_csv (ex_env (Inr ex_ok))) = Returned True \<and>
   result (download_csv (next_run (ex_env (Inr ex_ok)) (Inr ex_latin))) = Returned True \<and>
   concat (raw_chunks ex_latin) = [0xE9] \<and>
   disk_after (download_csv (next_run (ex_env (Inr ex_ok)) (Inr ex_latin)))
     (ascii ''/proj/pets.csv'') = Some [0xC3, 0xA9]"
  by (simp add: run_defs next_run_sel ex_defs ex_ok_def ex_latin_def)

section \<open>What the caller gets\<close>

text \<open>
  Claim C6, as the code has it. \<^verbatim>\<open>download_csv\<close> returns a boolean. It returns \<^verbatim>\<open>True\<close>
  exactly when the \<^verbatim>\<open>try\<close> block ran to its end, and then the number of octets written
  appears in the printed size line only, not in the value returned.
\<close>

theorem success_returns_flag_only:
  "result (download_csv e) = Returned True \<longleftrightarrow>
     (\<exists>written.
        try_block e =
          (None,
           [Downloading, Downloaded, File_line (csv_path e),
            Size_line (format_2f (length written))],
           (disk e)(csv_path e \<mapsto> written)))"
proof
  assume "result (download_csv e) = Returned True"
  then obtain r chunks total_size written where
    wc: "write_chunks chunks 0 [] = (None, total_size, written)" and
    dl: "download_csv e =
       \<lparr>result = Returned True,
        printed = [Downloading, Downloaded, File_line (csv_path e), Size_line (format_2f total_size)],
        disk_after = (disk e)(csv_path e \<mapsto> written)\<rparr>"
    by (rule download_csv_True)
  from write_chunks_ok [OF wc] have t: "total_size = length written" by auto
  have h: "handler x \<noteq> (Returned True, out)" for x out
    by (simp add: handler_def split: exn.splits option.splits sum.splits)
  obtain a out d where tb: "try_block e = (a, out, d)" by (cases "try_block e") auto
  show "\<exists>written. try_block e = (None, [Downloading, Downloaded, File_line (csv_path e),
            Size_line (format_2f (length written))], (disk e)(csv_path e \<mapsto> written))"
  proof (cases a)
    case None
    with tb dl t show ?thesis by (auto simp: download_csv_def)
  next
    case (Some x)
    with tb dl h show ?thesis
      by (auto simp: download_csv_def split: prod.splits)
  qed
next
  assume "\<exists>written. try_block e = (None, [Downloading, Downloaded, File_line (csv_path e),
            Size_line (format_2f (length written))], (disk e)(csv_path e \<mapsto> written))"
  then show "result (download_csv e) = Returned True"
    by (auto simp: download_csv_def)
qed

theorem success_returns_flag_only_witness:
  "result (download_csv (ex_env (Inr ex_ok))) = Returned True \<and>
   try_block (ex_env (Inr ex_ok)) =
     (None, [Downloading, Downloaded, File_line (ascii ''/proj/pets.csv''),
        Size_line (format_2f 5)],
      ex_disk(ascii ''/proj/pets.csv'' \<mapsto> octets ''a,b,c''))"
proof -
  have t: "try_block (ex_env (Inr ex_ok)) =
     (None, [Downloading, Downloaded, File_line (ascii ''/proj/pets.csv''),
        Size_line (format_2f 5)],
      ex_disk(ascii ''/proj/pets.csv'' \<mapsto> octets ''a,b,c''))"
    by (simp add: run_defs ex_defs ex_ok_def) (simp add: numeral_eq_Suc)
  have "\<exists>written. try_block (ex_env (Inr ex_ok)) =
      (None, [Downloading, Downloaded, File_line (csv_path (ex_env (Inr ex_ok))),
        Size_line (format_2f (length written))],
       (disk (ex_env (Inr ex_ok)))(csv_path (ex_env (Inr ex_ok)) \<mapsto> written))"
  proof (rule exI [of _ "octets ''a,b,c''"])
    have five: "length (octets ''a,b,c'') = 5" by (simp add: octets_def)
    show "try_block (ex_env (Inr ex_ok)) =
      (None, [Downloading, Downloaded, File_line (csv_path (ex_env (Inr ex_ok))),
        Size_line (format_2f (length (octets ''a,b,c'')))],
       (disk (ex_env (Inr ex_ok)))(csv_path (ex_env (Inr ex_ok)) \<mapsto> octets ''a,b,c''))"
      unfolding five by (simp add: t ex_env_sel csv_path_ex_env)
  qed
  then have "result (download_csv (ex_env (Inr ex_ok))) = Returned True"
    by (rule success_returns_flag_only [THEN iffD2])
  with t show ?thesis by simp
qed

text \<open>
  Claim C6 as the spec states it fails: two successful runs that wrote 5 and 2 octets hand
  the same value, \<^verbatim>\<open>True\<close>, to the caller; the number of octets is not in it.
\<close>

theorem returned_value_has_no_count_counterexample:
  "result (download_csv (ex_env (Inr ex_ok))) = Returned True \<and>
   map_option length (disk_after (download_csv (ex_env (Inr ex_ok))) (ascii ''/proj/pets.csv'')) = Some 5 \<and>
   result (download_csv (ex_env (Inr ex_latin))) = Returned True \<and>
   map_option length (disk_after (download_csv (ex_env (Inr ex_latin))) (ascii ''/proj/pets.csv'')) = Some 2"
  by (simp add: run_defs ex_defs ex_ok_def ex_latin_def)

section \<open>The reported size\<close>

lemma hundredths_nearest:
  "2 * \<bar>int (hundredths b) * 1048576 - int b * 100\<bar> \<le> 1048576"
proof -
  define n where "n = b * 100"
  define q where "q = n div 1048576"
  define r where "r = n mod 1048576"
  have n: "n = q * 1048576 + r" and r: "r < 1048576"
    by (simp_all add: q_def r_def)
  have h: "hundredths b = (if r > 524288 \<or> (r = 524288 \<and> odd q) then q + 1 else q)"
    by (simp add: hundredths_def Let_def n_def q_def r_def)
  have "int b * 100 = int q * 1048576 + int r"
    using n by (simp add: n_def flip: of_nat_mult of_nat_add)
  then show ?thesis using r by (auto simp: h)
qed

lemma hundredths_tie_even:
  "2 * \<bar>int (hundredths b) * 1048576 - int b * 100\<bar> = 1048576 \<Longrightarrow> even (hundredths b)"
proof -
  assume t: "2 * \<bar>int (hundredths b) * 1048576 - int b * 100\<bar> = 1048576"
  define n where "n = b * 100"
  define q where "q = n div 1048576"
  define r where "r = n mod 1048576"
  have n: "n = q * 1048576 + r" and r: "r < 1048576"
    by (simp_all add: q_def r_def)
  have h: "hundredths b = (if r > 524288 \<or> (r = 524288 \<and> odd q) then q + 1 else q)"
    by (simp add: hundredths_def Let_def n_def q_def r_def)
  have e: "int b * 100 = int q * 1048576 + int r"
    using n by (simp add: n_def flip: of_nat_mult of_nat_add)
  from t e r have "r = 524288" by (auto simp: h split: if_splits)
  then show ?thesis by (simp add: h)
qed

text \<open>
  Claim C9. After a successful run that wrote \<open>b\<close> octets (fewer than \<open>2 ^ 53\<close>, where
  the float quotient is exact), the lines printed are the two success lines, the file path
  and the size: \<open>b / 1048576\<close> rendered with two decimal places. The number printed,
  times 100, is the natural number \<open>h\<close> nearest to \<open>100 * b / 1048576\<close> (within one
  half, a tie going to the even one), written as the digits of \<open>h div 100\<close>, a point and
  two digits.
\<close>

theorem reported_size:
  assumes "result (download_csv e) = Returned True"
    and "disk_after (download_csv e) (csv_path e) = Some content"
    and "length content < 2 ^ 53"
  shows "printed (download_csv e) =
           [Downloading, Downloaded, File_line (csv_path e),
            Size_line (format_2f (length content))] \<and>
         format_2f (length content) =
           show_nat (hundredths (length content) div 100) @ ascii ''.'' @
           [48 + hundredths (length content) mod 100 div 10,
            48 + hundredths (length content) mod 10] \<and>
         2 * \<bar>int (hundredths (length content)) * 1048576 - int (length content) * 100\<bar>
           \<le> 1048576 \<and>
         (2 * \<bar>int (hundredths (length content)) * 1048576 - int (length content) * 100\<bar>
           = 1048576 \<longrightarrow> even (hundredths (length content)))"
proof -
  from assms(1) obtain r chunks total_size written where
    wc: "write_chunks chunks 0 [] = (None, total_size, written)" and
    dl: "download_csv e =
       \<lparr>result = Returned True,
        printed = [Downloading, Downloaded, File_line (csv_path e), Size_line (format_2f total_size)],
        disk_after = (disk e)(csv_path e \<mapsto> written)\<rparr>"
    by (rule download_csv_True)
  from write_chunks_ok [OF wc] have t: "total_size = length written" by auto
  from assms(2) have "content = written" by (simp add: dl)
  with t show ?thesis
    using hundredths_nearest [of "length content"] hundredths_tie_even [of "length content"]
    by (simp add: dl format_2f_def Let_def)
qed

theorem reported_size_witness:
  "result (download_csv (ex_env (Inr ex_ok))) = Returned True \<and>
   disk_after (download_csv (ex_env (Inr ex_ok))) (csv_path (ex_env (Inr ex_ok))) =
     Some (octets ''a,b,c'') \<and>
   length (octets ''a,b,c'') < 2 ^ 53 \<and>
   printed (download_csv (ex_env (Inr ex_ok))) =
     [Downloading, Downloaded, File_line (ascii ''/proj/pets.csv''),
      Size_line (ascii ''0.00'')] \<and>
   format_2f 131072 = ascii ''0.12'' \<and> format_2f 1572864 = ascii ''1.50'' \<and>
   format_2f 123456789 = ascii ''117.74''"
proof -
  have h: "result (download_csv (ex_env (Inr ex_ok))) = Returned True"
    "disk_after (download_csv (ex_env (Inr ex_ok))) (csv_path (ex_env (Inr ex_ok))) =
       Some (octets ''a,b,c'')"
    by (simp_all add: run_defs ex_defs ex_ok_def)
  have l: "length (octets ''a,b,c'') < 2 ^ 53" by (simp add: octets_def)
  have five: "length (octets ''a,b,c'') = 5" by (simp add: octets_def)
  have f: "format_2f 5 = ascii ''0.00''" "format_2f 131072 = ascii ''0.12''"
    "format_2f 1572864 = ascii ''1.50''" "format_2f 123456789 = ascii ''117.74''"
    by (simp_all add: format_2f_def hundredths_def show_nat.simps ascii_def)
  from reported_size [OF h l] have
    "printed (download_csv (ex_env (Inr ex_ok))) =
       [Downloading, Downloaded, File_line (csv_path (ex_env (Inr ex_ok))),
        Size_line (format_2f (length (octets ''a,b,c'')))]"
    by (rule conjunct1)
  then have "printed (download_csv (ex_env (Inr ex_ok))) =
     [Downloading, Downloaded, File_line (ascii ''/proj/pets.csv''),
      Size_line (ascii ''0.00'')]"
    unfolding five f(1) csv_path_ex_env .
  with h l f show ?thesis by simp
qed

section \<open>The output path\<close>

lemma dropWhile_rev_last:
  assumes "s \<noteq> []" "last s \<noteq> sep"
  shows "dropWhile (\<lambda>c. c = sep) (rev s) = rev s"
proof (cases s rule: rev_cases)
  case Nil
  with assms(1) show ?thesis by simp
next
  case (snoc ys y)
  with assms(2) show ?thesis by simp
qed

lemma not_all_sep:
  assumes "s \<noteq> []" "last s \<noteq> sep"
  shows "s @ [sep] \<noteq> replicate (length (s @ [sep])) sep"
proof
  assume eq: "s @ [sep] = replicate (length (s @ [sep])) sep"
  have "last s \<in> set (s @ [sep])" using assms(1) by simp
  then have "last s \<in> set (replicate (length (s @ [sep])) sep)" using eq by metis
  then have "last s = sep" by auto
  with assms(2) show False by simp
qed

lemma dirname_append:
  assumes "sep \<notin> set f" "s \<noteq> []" "last s \<noteq> sep"
  shows "dirname (s @ [sep] @ f) = s"
proof -
  have "dropWhile (\<lambda>c. c \<noteq> sep) (rev f @ sep # rev s) = sep # rev s"
    using assms(1) by (subst dropWhile_append2) auto
  then have head: "rev (dropWhile (\<lambda>c. c \<noteq> sep) (rev (s @ [sep] @ f))) = s @ [sep]"
    by simp
  have "rstrip_sep (s @ [sep]) = s"
    using dropWhile_rev_last [OF assms(2,3)] by (simp add: rstrip_sep_def)
  then show ?thesis
    unfolding dirname_def head Let_def using not_all_sep [OF assms(2,3)] by simp
qed

lemma dirname_root:
  assumes "sep \<notin> set f"
  shows "dirname ([sep] @ f) = [sep]"
proof -
  have "dropWhile (\<lambda>c. c \<noteq> sep) (rev f @ [sep]) = [sep]"
    using assms by (subst dropWhile_append2) auto
  then have head: "rev (dropWhile (\<lambda>c. c \<noteq> sep) (rev ([sep] @ f))) = [sep]"
    by simp
  show ?thesis unfolding dirname_def head Let_def by simp
qed

lemma grandparent:
  assumes "sep \<notin> set s" "s \<noteq> []" "sep \<notin> set f" "d = [] \<or> last d \<noteq> sep"
  shows "join (dirname (dirname (d @ [sep] @ s @ [sep] @ f))) (ascii ''pets.csv'') =
           d @ [sep] @ ascii ''pets.csv''"
proof -
  have "last s \<in> set s" using assms(2) by simp
  with assms(1) have "last s \<noteq> sep" by metis
  with assms(2) have ls: "last (d @ [sep] @ s) \<noteq> sep" by simp
  have "dirname ((d @ [sep] @ s) @ [sep] @ f) = d @ [sep] @ s"
    using assms(3) _ ls by (rule dirname_append) simp
  then have d1: "dirname (d @ [sep] @ s @ [sep] @ f) = d @ [sep] @ s" by simp
  have pets: "\<not> isabs (ascii ''pets.csv'')" by (simp add: isabs_def ascii_def sep_def)
  show ?thesis
  proof (cases "d = []")
    case True
    then have d2: "dirname (d @ [sep] @ s) = [sep]"
      using dirname_root [OF assms(1)] by simp
    have "join [sep] (ascii ''pets.csv'') = d @ [sep] @ ascii ''pets.csv''"
      using True pets by (simp add: join_def)
    then show ?thesis unfolding d1 d2 .
  next
    case False
    with assms(4) have l: "last d \<noteq> sep" by simp
    have d2: "dirname (d @ [sep] @ s) = d"
      using assms(1) False l by (rule dirname_append)
    have "join d (ascii ''pets.csv'') = d @ [sep] @ ascii ''pets.csv''"
      using False l pets by (simp add: join_def)
    then show ?thesis unfolding d1 d2 .
  qed
qed

text \<open>
  Claim C8. In every run the output path is
  \<^verbatim>\<open>join(dirname(dirname(abspath(__file__))), "pets.csv")\<close>: a function of the script's own
  location alone (two runs with the same \<^verbatim>\<open>abspath(__file__)\<close> have the same output path,
  and for an absolute \<^verbatim>\<open>__file__\<close> the working directory plays no part), and
  for a script at \<^verbatim>\<open>d/s/f\<close> it is \<^verbatim>\<open>d/pets.csv\<close>, the file of that name in the grandparent
  directory. No response, no file on disk and no other input enters it; no other path is
  written, and a successful run leaves the file there and prints that path.
\<close>

theorem output_path:
  "csv_path e =
     join (dirname (dirname (abspath (getcwd e) (script_file e)))) (ascii ''pets.csv'') \<and>
   (\<forall>e' :: 's env.
      abspath (getcwd e') (script_file e') = abspath (getcwd e) (script_file e) \<longrightarrow>
      csv_path e' = csv_path e) \<and>
   (isabs (script_file e) \<longrightarrow>
      abspath (getcwd e) (script_file e) = normpath (script_file e)) \<and>
   (\<forall>d s f. abspath (getcwd e) (script_file e) = d @ [sep] @ s @ [sep] @ f \<longrightarrow>
      sep \<notin> set s \<longrightarrow> s \<noteq> [] \<longrightarrow> sep \<notin> set f \<longrightarrow> (d = [] \<or> last d \<noteq> sep) \<longrightarrow>
      csv_path e = d @ [sep] @ ascii ''pets.csv'') \<and>
   (\<forall>p. p \<noteq> csv_path e \<longrightarrow> disk_after (download_csv e) p = disk e p) \<and>
   (result (download_csv e) = Returned True \<longrightarrow>
      disk_after (download_csv e) (csv_path e) \<noteq> None \<and>
      File_line (csv_path e) \<in> set (printed (download_csv e)))"
proof -
  have a: "csv_path e =
     join (dirname (dirname (abspath (getcwd e) (script_file e)))) (ascii ''pets.csv'')"
    by (simp add: csv_path_def)
  have b: "isabs (script_file e) \<longrightarrow>
      abspath (getcwd e) (script_file e) = normpath (script_file e)"
    by (simp add: abspath_def)
  have c: "csv_path e = d @ [sep] @ ascii ''pets.csv''"
    if "abspath (getcwd e) (script_file e) = d @ [sep] @ s @ [sep] @ f"
      "sep \<notin> set s" "s \<noteq> []" "sep \<notin> set f" "d = [] \<or> last d \<noteq> sep" for d s f
    using grandparent [OF that(2-5)] that(1) by (simp add: a)
  have d: "result (download_csv e) = Returned True \<longrightarrow>
      disk_after (download_csv e) (csv_path e) \<noteq> None \<and>
      File_line (csv_path e) \<in> set (printed (download_csv e))"
  proof
    assume "result (download_csv e) = Returned True"
    then obtain total_size written where
      "download_csv e =
       \<lparr>result = Returned True,
        printed = [Downloading, Downloaded, File_line (csv_path e), Size_line (format_2f total_size)],
        disk_after = (disk e)(csv_path e \<mapsto> written)\<rparr>"
      by (rule download_csv_True)
    then show "disk_after (download_csv e) (csv_path e) \<noteq> None \<and>
      File_line (csv_path e) \<in> set (printed (download_csv e))" by simp
  qed
  have i: "csv_path e' = csv_path e"
    if "abspath (getcwd e') (script_file e') = abspath (getcwd e) (script_file e)"
    for e' :: "'s env"
    using that by (simp add: csv_path_def)
  from a b c d i only_csv_path_changes [of _ e] show ?thesis by blast
qed

theorem output_path_witness:
  "abspath (getcwd (ex_env (Inr ex_ok))) (script_file (ex_env (Inr ex_ok))) =
     ascii ''/proj'' @ [sep] @ ascii ''server'' @ [sep] @ ascii ''download_csv.py'' \<and>
   isabs (script_file (ex_env (Inr ex_ok))) \<and>
   csv_path (ex_env (Inr ex_ok)) = ascii ''/proj'' @ [sep] @ ascii ''pets.csv'' \<and>
   abspath (ascii ''/proj'') (ascii ''server/../server//download_csv.py'') =
     ascii ''/proj/server/download_csv.py'' \<and>
   result (download_csv (ex_env (Inr ex_ok))) = Returned True \<and>
   disk_after (download_csv (ex_env (Inr ex_ok))) (ascii ''/proj/pets.csv'') \<noteq> None"
proof -
  have p: "abspath (getcwd (ex_env (Inr ex_ok))) (script_file (ex_env (Inr ex_ok))) =
     ascii ''/proj'' @ [sep] @ ascii ''server'' @ [sep] @ ascii ''download_csv.py''"
    "isabs (script_file (ex_env (Inr ex_ok)))"
    "abspath (ascii ''/proj'') (ascii ''server/../server//download_csv.py'') =
     ascii ''/proj/server/download_csv.py''"
    by (simp_all add: ex_env_def path_defs)
  have q: "sep \<notin> set (ascii ''server'')" "ascii ''server'' \<noteq> []"
    "sep \<notin> set (ascii ''download_csv.py'')"
    "ascii ''/proj'' = [] \<or> last (ascii ''/proj'') \<noteq> sep"
    by (simp_all add: ascii_def sep_def)
  have r: "result (download_csv (ex_env (Inr ex_ok))) = Returned True"
    by (simp add: run_defs ex_defs ex_ok_def)
  from output_path [of "ex_env (Inr ex_ok)"] p q r
  have "csv_path (ex_env (Inr ex_ok)) = ascii ''/proj'' @ [sep] @ ascii ''pets.csv''"
    "disk_after (download_csv (ex_env (Inr ex_ok))) (csv_path (ex_env (Inr ex_ok))) \<noteq> None"
    by blast+
  with p r show ?thesis by (simp add: csv_path_ex_env)
qed

end
